theory Spec2Isabelle
  imports Complex_Main "HOL-Library.Char_ord" "HOL-Library.List_Lexorder"
begin

section \<open>Data model of the NAV strike engine\<close>

text \<open>
  The development embeds the class \<open>NAVStrikeEngine\<close> of
  \<^verbatim>\<open>src-kit/nav-strike-engine.ts\<close>. The web3.js variant of the class has the same fields
  and the same control flow in every method modelled here; it hands the floored leg amounts
  to the instruction builders of its library as numbers, where this variant converts them
  with \<open>BigInt\<close> itself.

  \<^item> A JavaScript \<open>number\<close> is modelled as an exact rational: rounding, overflow, NaN and the
    infinities of IEEE doubles are outside the model. Where the source's behaviour depends
    on a non-finite value (a division by a zero NAV, whose result \<open>BigInt\<close> rejects), the
    branch is written out.
  \<^item> Order objects and arrays are heap objects that the engine, its callers and the local
    snapshots of a strike share; the model keeps an explicit store for both.
  \<^item> Exceptions are values of type \<open>error\<close>; a method that can throw returns the state
    together with its result, because a JavaScript exception does not undo earlier writes.
  \<^item> Everything behind the RPC client (account derivation, block hashes, signing, sending and
    confirming) is an input: the record \<open>ledger\<close> says what each call answers.
\<close>

datatype orderType = Subscribe | Redeem

datatype orderStatus = Pending | Executed | Failed

datatype error = TypeError | RangeError | LedgerError

type_synonym address = string

type_synonym ref = nat

text \<open>A \<open>Date\<close> as the engine reads it: the local calendar day, \<open>getHours()\<close>,
  \<open>getMinutes()\<close> and the milliseconds within the minute.\<close>

record jsDate =
  dayNo :: int
  hours :: nat
  minutes :: nat
  minuteMillis :: nat

text \<open>The \<open>Date\<close> that \<open>getNextStrikeTime\<close> builds: a copy of \<open>onDate\<close> on which
  \<open>setHours(parseInt(h), parseInt(m), 0, 0)\<close> was called for \<open>[h, m] = entry.split(":")\<close>.
  The record names the day and the schedule entry; the parsing of the entry is not unfolded.\<close>

record strikeDate =
  onDate :: jsDate
  entry :: string

record StrikeOrder =
  orderId :: string
  investor :: address
  orderType :: orderType
  amount :: rat
  strikeTime :: strikeDate
  status :: orderStatus

text \<open>The private fields of the engine, followed by the store: order objects and arrays by
  reference, each with the next free reference.\<close>

record state =
  currentNAV :: rat
  totalAUM :: rat
  totalSharesOutstanding :: rat
  strikeSchedule :: "string list"
  lastStrikeTime :: jsDate
  pendingOrders :: ref
  orderCounter :: nat
  orderObjs :: "ref \<Rightarrow> StrikeOrder"
  arrayObjs :: "ref \<Rightarrow> ref list"
  nextOrder :: ref
  nextArray :: ref

text \<open>The content of a store cell that no order object occupies yet (references at or
  above \<open>nextOrder\<close>); the engine never reads such a cell.\<close>

definition blankOrder :: StrikeOrder where
  "blankOrder =
     \<lparr>orderId = [], investor = [], orderType = Subscribe, amount = 0,
      strikeTime = \<lparr>onDate = \<lparr>dayNo = 0, hours = 0, minutes = 0, minuteMillis = 0\<rparr>, entry = []\<rparr>,
      status = Failed\<rparr>"

text \<open>The field initialisers of the class and its constructor: NAV 1.0, empty schedule,
  an empty order array (allocated at reference 0), the clock reading of the construction.\<close>

definition newEngine :: "jsDate \<Rightarrow> state" where
  "newEngine now =
     \<lparr>currentNAV = 1, totalAUM = 0, totalSharesOutstanding = 0, strikeSchedule = [],
      lastStrikeTime = now, pendingOrders = 0, orderCounter = 0,
      orderObjs = (\<lambda>_. blankOrder), arrayObjs = (\<lambda>_. []), nextOrder = 0, nextArray = 1\<rparr>"

section \<open>Strike scheduler\<close>

definition digitChar :: "nat \<Rightarrow> char" where
  "digitChar d = char_of (48 + d)"

text \<open>\<open>Number.prototype.toString()\<close> on a non-negative integer.\<close>

fun natToString :: "nat \<Rightarrow> string" where
  "natToString n =
     (if n < 10 then [digitChar n] else natToString (n div 10) @ [digitChar (n mod 10)])"

declare natToString.simps [simp del]

text \<open>\<open>s.padStart(2, "0")\<close>.\<close>

definition padStart2 :: "string \<Rightarrow> string" where
  "padStart2 s = replicate (2 - length s) (CHR ''0'') @ s"

definition currentTime :: "jsDate \<Rightarrow> string" where
  "currentTime now =
     padStart2 (natToString (hours now)) @ '':'' @ padStart2 (natToString (minutes now))"

text \<open>The \<open>for\<close> loop of \<open>getNextStrikeTime\<close>: the first entry, in the order of the array,
  that is greater than the current time as a string.\<close>

fun firstLater :: "string \<Rightarrow> string list \<Rightarrow> string option" where
  "firstLater cur [] = None"
| "firstLater cur (t # rest) =
     (if t > cur then Some t else firstLater cur rest)"

text \<open>\<open>getNextStrikeTime\<close>. With an empty schedule \<open>this.strikeSchedule[0]\<close> is
  \<open>undefined\<close> and \<open>.split\<close> on it throws a \<open>TypeError\<close>.\<close>

definition getNextStrikeTime :: "jsDate \<Rightarrow> state \<Rightarrow> error + strikeDate" where
  "getNextStrikeTime now s =
     (case firstLater (currentTime now) (strikeSchedule s) of
        Some t \<Rightarrow> Inr \<lparr>onDate = now, entry = t\<rparr>
      | None \<Rightarrow>
          (case strikeSchedule s of
             [] \<Rightarrow> Inl TypeError
           | t0 # _ \<Rightarrow> Inr \<lparr>onDate = now\<lparr>dayNo := dayNo now + 1\<rparr>, entry = t0\<rparr>))"

section \<open>The ledger gateway\<close>

text \<open>A settlement transaction as it is handed to the RPC client: the investor and the
  two leg amounts in base units (\<open>BigInt(Math.floor(x * 1e6))\<close>), in the order of the
  instructions.\<close>

datatype tx =
    SubscriptionTx address int int
  | RedemptionTx address int int

text \<open>What the world outside the engine answers during one call. \<open>publishNAV\<close> is the
  metadata transaction of \<open>updateNAV\<close> (its arguments: the NAV, the strike time and the AUM
  written on chain); \<open>prepare k\<close> says whether the account derivations and the block-hash
  fetch of the \<open>k\<close>-th settlement of a strike return, \<open>sendAndConfirm k\<close> whether its
  transaction is built, signed, sent and confirmed (\<open>Some\<close> signature) or throws
  (\<open>None\<close>). The clocks are the values of \<open>Date.now()\<close> and \<open>new Date()\<close>.\<close>

record ledger =
  epochMillis :: nat
  strikeClock :: jsDate
  navClock :: jsDate
  publishNAV :: "rat \<Rightarrow> jsDate \<Rightarrow> rat \<Rightarrow> string option"
  prepare :: "nat \<Rightarrow> bool"
  sendAndConfirm :: "nat \<Rightarrow> tx \<Rightarrow> string option"
  confirmClock :: "nat \<Rightarrow> jsDate"

section \<open>Fund creation and NAV update\<close>

text \<open>\<open>createFundToken\<close>, as far as the engine's fields go: they are written after the
  creation transaction is confirmed; \<open>created\<close> is the address of the new mint, or
  \<open>None\<close> when a call before that point throws.\<close>

definition createFundToken ::
  "jsDate \<Rightarrow> address option \<Rightarrow> rat \<Rightarrow> string list \<Rightarrow> state \<Rightarrow> (error + address) \<times> state" where
  "createFundToken now created initialNAV schedule s =
     (case created of
        None \<Rightarrow> (Inl LedgerError, s)
      | Some mint \<Rightarrow>
          (Inr mint, s\<lparr>currentNAV := initialNAV, strikeSchedule := schedule,
                       lastStrikeTime := now\<rparr>))"

text \<open>\<open>updateNAV\<close> assigns \<open>currentNAV\<close> and \<open>lastStrikeTime\<close> first and sends the
  metadata transaction afterwards.\<close>

definition updateNAV ::
  "jsDate \<Rightarrow> (rat \<Rightarrow> jsDate \<Rightarrow> rat \<Rightarrow> string option) \<Rightarrow> rat \<Rightarrow> state \<Rightarrow> (error + string) \<times> state" where
  "updateNAV now publish newNAV s =
     (let s1 = s\<lparr>currentNAV := newNAV, lastStrikeTime := now\<rparr> in
      case publish newNAV (lastStrikeTime s1) (totalAUM s1) of
        None \<Rightarrow> (Inl LedgerError, s1)
      | Some sig \<Rightarrow> (Inr sig, s1))"

section \<open>Settlement processor\<close>

record SubscriptionResult =
  signature_s :: string
  usdcAmount :: rat
  sharesIssued :: rat
  executionNAV_s :: rat
  timestamp_s :: jsDate

record RedemptionResult =
  signature_r :: string
  sharesRedeemed :: rat
  usdcPaid :: rat
  executionNAV_r :: rat
  timestamp_r :: jsDate

text \<open>\<open>BigInt(Math.floor(x * 1e6))\<close> on a finite \<open>x\<close>.\<close>

definition baseUnits :: "rat \<Rightarrow> int" where
  "baseUnits x = \<lfloor>x * 1000000\<rfloor>"

text \<open>\<open>processSubscription\<close>. With a zero NAV the quotient is infinite or NaN and
  \<open>BigInt\<close> throws a \<open>RangeError\<close> while the mint instruction is built, after the
  account derivations. The fields are written after the confirmation only. Every throw
  leaves the state as it was; \<open>executeStrike\<close> does not look at which error it caught.\<close>

definition processSubscription ::
  "bool \<Rightarrow> (tx \<Rightarrow> string option) \<Rightarrow> jsDate \<Rightarrow> address \<Rightarrow> rat \<Rightarrow> state
     \<Rightarrow> (error + SubscriptionResult) \<times> state" where
  "processSubscription prepared send now who usdc s =
     (if \<not> prepared then (Inl LedgerError, s)
      else if currentNAV s = 0 then (Inl RangeError, s)
      else
        let sharesToMint = usdc / currentNAV s in
        case send (SubscriptionTx who (baseUnits usdc) (baseUnits sharesToMint)) of
          None \<Rightarrow> (Inl LedgerError, s)
        | Some sig \<Rightarrow>
            let s' = s\<lparr>totalAUM := totalAUM s + usdc,
                        totalSharesOutstanding := totalSharesOutstanding s + sharesToMint\<rparr>
            in (Inr \<lparr>signature_s = sig, usdcAmount = usdc, sharesIssued = sharesToMint,
                      executionNAV_s = currentNAV s', timestamp_s = now\<rparr>, s'))"

definition processRedemption ::
  "bool \<Rightarrow> (tx \<Rightarrow> string option) \<Rightarrow> jsDate \<Rightarrow> address \<Rightarrow> rat \<Rightarrow> state
     \<Rightarrow> (error + RedemptionResult) \<times> state" where
  "processRedemption prepared send now who shareAmount s =
     (if \<not> prepared then (Inl LedgerError, s)
      else
        let usdcToPay = shareAmount * currentNAV s in
        case send (RedemptionTx who (baseUnits shareAmount) (baseUnits usdcToPay)) of
          None \<Rightarrow> (Inl LedgerError, s)
        | Some sig \<Rightarrow>
            let s' = s\<lparr>totalAUM := totalAUM s - usdcToPay,
                        totalSharesOutstanding := totalSharesOutstanding s - shareAmount\<rparr>
            in (Inr \<lparr>signature_r = sig, sharesRedeemed = shareAmount, usdcPaid = usdcToPay,
                      executionNAV_r = currentNAV s', timestamp_r = now\<rparr>, s'))"

section \<open>Order queue\<close>

text \<open>\<open>queueOrder\<close>. The object literal evaluates \<open>++this.orderCounter\<close> before
  \<open>this.getNextStrikeTime()\<close>, so the counter is already incremented when the latter
  throws. The new order object is pushed onto the engine's array in place.\<close>

definition queueOrder ::
  "jsDate \<Rightarrow> address \<Rightarrow> orderType \<Rightarrow> rat \<Rightarrow> state \<Rightarrow> (error + ref) \<times> state" where
  "queueOrder now who ty amt s =
     (let s1 = s\<lparr>orderCounter := orderCounter s + 1\<rparr> in
      case getNextStrikeTime now s1 of
        Inl e \<Rightarrow> (Inl e, s1)
      | Inr t \<Rightarrow>
          let r = nextOrder s1;
              obj = \<lparr>orderId = ''ORD-'' @ natToString (orderCounter s1), investor = who,
                     orderType = ty, amount = amt, strikeTime = t, status = Pending\<rparr>;
              s2 = s1\<lparr>orderObjs := (orderObjs s1)(r := obj), nextOrder := r + 1\<rparr>;
              q = pendingOrders s2
          in (Inr r, s2\<lparr>arrayObjs := (arrayObjs s2)(q := arrayObjs s2 q @ [r])\<rparr>))"

text \<open>\<open>getPendingOrders\<close>: the spread \<open>[...this.pendingOrders]\<close> allocates a new array
  holding the same order references.\<close>

definition getPendingOrders :: "state \<Rightarrow> ref \<times> state" where
  "getPendingOrders s =
     (let a = nextArray s in
      (a, s\<lparr>arrayObjs := (arrayObjs s)(a := arrayObjs s (pendingOrders s)),
             nextArray := a + 1\<rparr>))"

text \<open>What a caller can do to an array it holds: replace its elements (\<open>push\<close>,
  \<open>pop\<close>, \<open>splice\<close>, \<open>length = 0\<close> all are instances).\<close>

definition callerWritesArray :: "ref \<Rightarrow> ref list \<Rightarrow> state \<Rightarrow> state" where
  "callerWritesArray a xs s = s\<lparr>arrayObjs := (arrayObjs s)(a := xs)\<rparr>"

definition getFundState :: "state \<Rightarrow> rat \<times> jsDate \<times> rat \<times> rat" where
  "getFundState s = (currentNAV s, lastStrikeTime s, totalAUM s, totalSharesOutstanding s)"

section \<open>Strike orchestrator\<close>

text \<open>The local accumulators of \<open>executeStrike\<close>; the strike report extends them.\<close>

record tally =
  signatures :: "string list"
  totalUSDCSubscribed :: rat
  totalSharesMinted :: rat
  totalSharesRedeemed :: rat
  totalUSDCPaid :: rat
  subscriptionsProcessed :: nat
  redemptionsProcessed :: nat

record StrikeResult = tally +
  strikeId :: string
  strikeTime_k :: jsDate
  nav :: rat

text \<open>The value \<open>result\<close> of a loop iteration. The source reads it inside the iteration
  and drops it; the loops of the model also list these values, in call order, so that
  properties of the receipts of one strike can be stated.\<close>

datatype receipt =
    SubscriptionReceipt SubscriptionResult
  | RedemptionReceipt RedemptionResult

fun executionNAV :: "receipt \<Rightarrow> rat" where
  "executionNAV (SubscriptionReceipt x) = executionNAV_s x"
| "executionNAV (RedemptionReceipt x) = executionNAV_r x"

text \<open>\<open>order.status = v\<close> on the order object \<open>r\<close>.\<close>

definition setStatus :: "ref \<Rightarrow> orderStatus \<Rightarrow> state \<Rightarrow> state" where
  "setStatus r v s = s\<lparr>orderObjs := (orderObjs s)(r := (orderObjs s r)\<lparr>status := v\<rparr>)\<rparr>"

text \<open>The two \<open>for\<close> loops over the snapshots; \<open>k\<close> counts the settlements of the strike.
  The \<open>catch\<close> block marks the order failed and goes on with the next one.\<close>

fun subscriptionLoop ::
  "ledger \<Rightarrow> nat \<Rightarrow> ref list \<Rightarrow> state \<times> tally \<times> receipt list \<Rightarrow> state \<times> tally \<times> receipt list" where
  "subscriptionLoop L k [] acc = acc"
| "subscriptionLoop L k (r # rs) (s, t, rcs) =
     (case processSubscription (prepare L k) (sendAndConfirm L k) (confirmClock L k)
             (investor (orderObjs s r)) (amount (orderObjs s r)) s of
        (Inr result, s') \<Rightarrow>
          subscriptionLoop L (k + 1) rs
            (setStatus r Executed s',
             t\<lparr>signatures := signatures t @ [signature_s result],
               totalUSDCSubscribed := totalUSDCSubscribed t + usdcAmount result,
               totalSharesMinted := totalSharesMinted t + sharesIssued result,
               subscriptionsProcessed := subscriptionsProcessed t + 1\<rparr>,
             rcs @ [SubscriptionReceipt result])
      | (Inl e, s') \<Rightarrow>
          subscriptionLoop L (k + 1) rs (setStatus r Failed s', t, rcs))"

fun redemptionLoop ::
  "ledger \<Rightarrow> nat \<Rightarrow> ref list \<Rightarrow> state \<times> tally \<times> receipt list \<Rightarrow> state \<times> tally \<times> receipt list" where
  "redemptionLoop L k [] acc = acc"
| "redemptionLoop L k (r # rs) (s, t, rcs) =
     (case processRedemption (prepare L k) (sendAndConfirm L k) (confirmClock L k)
             (investor (orderObjs s r)) (amount (orderObjs s r)) s of
        (Inr result, s') \<Rightarrow>
          redemptionLoop L (k + 1) rs
            (setStatus r Executed s',
             t\<lparr>signatures := signatures t @ [signature_r result],
               totalSharesRedeemed := totalSharesRedeemed t + sharesRedeemed result,
               totalUSDCPaid := totalUSDCPaid t + usdcPaid result,
               redemptionsProcessed := redemptionsProcessed t + 1\<rparr>,
             rcs @ [RedemptionReceipt result])
      | (Inl e, s') \<Rightarrow>
          redemptionLoop L (k + 1) rs (setStatus r Failed s', t, rcs))"

text \<open>The two snapshots of \<open>executeStrike\<close>: \<open>this.pendingOrders.filter(...)\<close>.\<close>

definition pendingOf :: "orderType \<Rightarrow> state \<Rightarrow> ref list" where
  "pendingOf ty s =
     filter (\<lambda>r. orderType (orderObjs s r) = ty \<and> status (orderObjs s r) = Pending)
       (arrayObjs s (pendingOrders s))"

definition emptyTally :: tally where
  "emptyTally =
     \<lparr>signatures = [], totalUSDCSubscribed = 0, totalSharesMinted = 0, totalSharesRedeemed = 0,
      totalUSDCPaid = 0, subscriptionsProcessed = 0, redemptionsProcessed = 0\<rparr>"

text \<open>Step 2 of \<open>executeStrike\<close>: both snapshots are taken before the first settlement.\<close>

definition settleOrders :: "ledger \<Rightarrow> state \<Rightarrow> state \<times> tally \<times> receipt list" where
  "settleOrders L s =
     (let subscriptions = pendingOf Subscribe s;
          redemptions = pendingOf Redeem s
      in redemptionLoop L (length subscriptions) redemptions
           (subscriptionLoop L 0 subscriptions (s, emptyTally, [])))"

text \<open>\<open>executeStrike\<close>. \<open>updateNAV\<close> is awaited outside any \<open>try\<close>, so its exception
  leaves the method. The last assignment stores a new, filtered array in the field.\<close>

definition executeStrike :: "ledger \<Rightarrow> rat \<Rightarrow> state \<Rightarrow> (error + StrikeResult) \<times> state" where
  "executeStrike L newNAV s =
     (case updateNAV (navClock L) (publishNAV L) newNAV s of
        (Inl e, s1) \<Rightarrow> (Inl e, s1)
      | (Inr sig, s1) \<Rightarrow>
          (case settleOrders L s1 of
             (s2, t, rcs) \<Rightarrow>
               let a = nextArray s2;
                   s3 = s2\<lparr>arrayObjs :=
                             (arrayObjs s2)(a := filter (\<lambda>r. status (orderObjs s2 r) = Pending)
                                                   (arrayObjs s2 (pendingOrders s2))),
                           nextArray := a + 1, pendingOrders := a\<rparr>
               in (Inr (tally.extend t
                          \<lparr>strikeId = ''STRIKE-'' @ natToString (epochMillis L),
                           strikeTime_k = strikeClock L, nav = currentNAV s3\<rparr>), s3)))"

text \<open>The receipts of the settlements of one strike, in call order.\<close>

definition strikeReceipts :: "ledger \<Rightarrow> rat \<Rightarrow> state \<Rightarrow> receipt list" where
  "strikeReceipts L newNAV s =
     (case updateNAV (navClock L) (publishNAV L) newNAV s of
        (Inl e, s1) \<Rightarrow> []
      | (Inr sig, s1) \<Rightarrow> snd (snd (settleOrders L s1)))"

section \<open>Notions used in the statements\<close>

text \<open>The answer of the ledger to the \<open>k\<close>-th settlement of a strike when that settlement
  is the subscription (redemption) of order \<open>x\<close> at the price \<open>price\<close>: the signature, or
  \<open>None\<close> when a call throws before the transaction is confirmed.\<close>

definition subscriptionConfirmed :: "ledger \<Rightarrow> nat \<Rightarrow> rat \<Rightarrow> StrikeOrder \<Rightarrow> string option" where
  "subscriptionConfirmed L k price x =
     (if prepare L k \<and> price \<noteq> 0
      then sendAndConfirm L k
             (SubscriptionTx (investor x) (baseUnits (amount x)) (baseUnits (amount x / price)))
      else None)"

definition redemptionConfirmed :: "ledger \<Rightarrow> nat \<Rightarrow> rat \<Rightarrow> StrikeOrder \<Rightarrow> string option" where
  "redemptionConfirmed L k price x =
     (if prepare L k
      then sendAndConfirm L k
             (RedemptionTx (investor x) (baseUnits (amount x)) (baseUnits (amount x * price)))
      else None)"

text \<open>What the \<open>k\<close>-th settlement adds to (takes from) the totals: the amount of the
  order when the ledger confirms it, nothing otherwise.\<close>

definition subscribedAt :: "ledger \<Rightarrow> rat \<Rightarrow> nat \<Rightarrow> StrikeOrder \<Rightarrow> rat" where
  "subscribedAt L price k x =
     (if subscriptionConfirmed L k price x = None then 0 else amount x)"

definition redeemedAt :: "ledger \<Rightarrow> rat \<Rightarrow> nat \<Rightarrow> StrikeOrder \<Rightarrow> rat" where
  "redeemedAt L price k x =
     (if redemptionConfirmed L k price x = None then 0 else amount x)"

text \<open>Two states agree on every field of the engine and of the store other than the two
  ledger totals and the order objects.\<close>

definition sameEngine :: "state \<Rightarrow> state \<Rightarrow> bool" where
  "sameEngine s s' =
     (currentNAV s' = currentNAV s \<and> strikeSchedule s' = strikeSchedule s \<and>
      lastStrikeTime s' = lastStrikeTime s \<and> pendingOrders s' = pendingOrders s \<and>
      orderCounter s' = orderCounter s \<and> arrayObjs s' = arrayObjs s \<and>
      nextOrder s' = nextOrder s \<and> nextArray s' = nextArray s)"

text \<open>The engine's queue: the elements of the array its field refers to.\<close>

definition queue :: "state \<Rightarrow> ref list" where
  "queue s = arrayObjs s (pendingOrders s)"

text \<open>The shape of the store that the engine's own methods maintain: the queue array is
  allocated, and it holds pairwise different, allocated order objects.\<close>

definition wfState :: "state \<Rightarrow> bool" where
  "wfState s =
     (pendingOrders s < nextArray s \<and> distinct (queue s) \<and> list_all (\<lambda>r. r < nextOrder s) (queue s))"

text \<open>Reading a schedule entry of the documented form \<open>HH:MM\<close> as a time of day, in
  minutes after midnight; used to state what the string comparison of the source means.\<close>

definition digitVal :: "char \<Rightarrow> nat" where
  "digitVal c = of_char c - 48"

definition isDigit :: "char \<Rightarrow> bool" where
  "isDigit c = (48 \<le> (of_char c :: nat) \<and> (of_char c :: nat) \<le> 57)"

fun wellFormed :: "string \<Rightarrow> bool" where
  "wellFormed [h1, h2, c, m1, m2] =
     (isDigit h1 \<and> isDigit h2 \<and> c = CHR '':'' \<and> isDigit m1 \<and> isDigit m2 \<and>
      10 * digitVal h1 + digitVal h2 < 24 \<and> 10 * digitVal m1 + digitVal m2 < 60)"
| "wellFormed _ = False"

fun timeOfDay :: "string \<Rightarrow> nat" where
  "timeOfDay [h1, h2, c, m1, m2] =
     (10 * digitVal h1 + digitVal h2) * 60 + (10 * digitVal m1 + digitVal m2)"
| "timeOfDay _ = 0"

definition nowOfDay :: "jsDate \<Rightarrow> nat" where
  "nowOfDay now = hours now * 60 + minutes now"

section \<open>A fund used in the examples\<close>

definition at0800 :: jsDate where
  "at0800 = \<lparr>dayNo = 0, hours = 8, minutes = 0, minuteMillis = 0\<rparr>"

definition at0930 :: jsDate where
  "at0930 = \<lparr>dayNo = 0, hours = 9, minutes = 30, minuteMillis = 0\<rparr>"

definition demoFund :: state where
  "demoFund = snd (createFundToken at0800 (Some ''FUND'') 1 [''09:30'', ''12:00''] (newEngine at0800))"

definition unsortedFund :: state where
  "unsortedFund = snd (createFundToken at0800 (Some ''FUND'') 1 [''12:00'', ''09:30''] (newEngine at0800))"

text \<open>Three queued orders, and three ledgers: one that confirms everything, one whose
  second settlement of a strike throws, one whose NAV publication throws.\<close>

definition demoQueue :: state where
  "demoQueue =
     snd (queueOrder at0800 ''C'' Redeem 40
       (snd (queueOrder at0800 ''B'' Subscribe 150
         (snd (queueOrder at0800 ''A'' Subscribe 250 demoFund)))))"

definition okLedger :: ledger where
  "okLedger =
     \<lparr>epochMillis = 1000, strikeClock = at0930, navClock = at0930,
      publishNAV = (\<lambda>_ _ _. Some ''nav''), prepare = (\<lambda>_. True),
      sendAndConfirm = (\<lambda>k _. Some (''tx'' @ natToString k)), confirmClock = (\<lambda>_. at0930)\<rparr>"

definition flakyLedger :: ledger where
  "flakyLedger =
     okLedger\<lparr>sendAndConfirm := (\<lambda>k _. if k = 1 then None else Some (''tx'' @ natToString k))\<rparr>"

definition downLedger :: ledger where
  "downLedger = okLedger\<lparr>publishNAV := (\<lambda>_ _ _. None)\<rparr>"

text \<open>The state after a first strike at NAV 1 and one more redemption order.\<close>

definition secondQueue :: state where
  "secondQueue = snd (queueOrder at0930 ''B'' Redeem 50 (snd (executeStrike okLedger 1 demoQueue)))"




section \<open>Scheduler: string order and time of day\<close>

lemma digit_less: "isDigit a \<Longrightarrow> isDigit b \<Longrightarrow> (a < b) = (digitVal a < digitVal b)"
  by (auto simp: isDigit_def digitVal_def less_char_def)

lemma digit_eq: "isDigit a \<Longrightarrow> isDigit b \<Longrightarrow> (a = b) = (digitVal a = digitVal b)"
  by (auto simp: isDigit_def digitVal_def less_char_def) (use eq_diff_iff in force)

lemma wellFormedE: "wellFormed a \<Longrightarrow> \<exists>h1 h2 m1 m2. a = [h1, h2, CHR '':'', m1, m2]"
  by (induction a rule: wellFormed.induct) auto

lemma digitVal_le: "isDigit a \<Longrightarrow> digitVal a \<le> 9"
  by (auto simp: isDigit_def digitVal_def)

lemma less_timeOfDay:
  assumes "wellFormed a" "wellFormed b"
  shows "(a < b) = (timeOfDay a < timeOfDay b)"
proof -
  from assms obtain h1 h2 m1 m2 k1 k2 n1 n2 where
    a: "a = [h1, h2, CHR '':'', m1, m2]" and b: "b = [k1, k2, CHR '':'', n1, n2]"
    by (meson wellFormedE)
  show ?thesis using assms unfolding a b
    using digitVal_le[of h1] digitVal_le[of h2] digitVal_le[of m1] digitVal_le[of m2]
     digitVal_le[of k1] digitVal_le[of k2] digitVal_le[of n1] digitVal_le[of n2]
    by (simp add: digit_less digit_eq) arith
qed

lemma char_of_48: "char_of (48::nat) = CHR ''0''"
  by code_simp

lemma padStart2_digits:
  assumes n: "n < 100"
  shows "\<exists>d1 d2. padStart2 (natToString n) = [digitChar d1, digitChar d2] \<and>
           d1 < 10 \<and> d2 < 10 \<and> n = 10 * d1 + d2"
proof (cases "n < 10")
  case True
  then have "padStart2 (natToString n) = [digitChar 0, digitChar n]"
    by (simp add: natToString.simps padStart2_def digitChar_def char_of_48)
  with True show ?thesis by force
next
  case False
  with n have d: "n div 10 < 10" by simp
  with False have "padStart2 (natToString n) = [digitChar (n div 10), digitChar (n mod 10)]"
    by (simp add: natToString.simps[of n] natToString.simps[of "n div 10"] padStart2_def)
  with d show ?thesis by force
qed

lemma digitChar_digit: "d < 10 \<Longrightarrow> isDigit (digitChar d) \<and> digitVal (digitChar d) = d"
  by (simp add: isDigit_def digitVal_def digitChar_def)

lemma currentTime_wellFormed:
  assumes h: "hours now < 24" and m: "minutes now < 60"
  shows "wellFormed (currentTime now) \<and> timeOfDay (currentTime now) = nowOfDay now"
proof -
  from padStart2_digits[of "hours now"] h obtain a b where
    hh: "padStart2 (natToString (hours now)) = [digitChar a, digitChar b]"
        "a < 10" "b < 10" "hours now = 10 * a + b"
    by force
  from padStart2_digits[of "minutes now"] m obtain c d where
    mm: "padStart2 (natToString (minutes now)) = [digitChar c, digitChar d]"
        "c < 10" "d < 10" "minutes now = 10 * c + d"
    by force
  show ?thesis
    using h m hh mm digitChar_digit[of a] digitChar_digit[of b]
      digitChar_digit[of c] digitChar_digit[of d]
    by (simp add: currentTime_def nowOfDay_def)
qed

lemma firstLater_None: "(firstLater cur xs = None) = (\<forall>x\<in>set xs. \<not> cur < x)"
  by (induction xs) auto

lemma firstLater_Some:
  "firstLater cur xs = Some t \<Longrightarrow>
     \<exists>ys zs. xs = ys @ t # zs \<and> cur < t \<and> (\<forall>y\<in>set ys. \<not> cur < y)"
proof (induction xs)
  case Nil
  then show ?case by simp
next
  case (Cons x xs)
  show ?case
  proof (cases "cur < x")
    case True
    with Cons.prems have "x = t" by simp
    with True show ?thesis by (intro exI[of _ "[]"] exI[of _ xs]) simp
  next
    case False
    with Cons obtain ys zs where "xs = ys @ t # zs" "cur < t" "\<forall>y\<in>set ys. \<not> cur < y"
      by auto
    with False show ?thesis by (intro exI[of _ "x # ys"] exI[of _ zs]) simp
  qed
qed

text \<open>
  Claim C8, as amended. For a non-empty schedule of \<open>HH:MM\<close> entries given in ascending
  order of time and any clock reading, \<open>getNextStrikeTime\<close> returns the earliest entry whose
  time of day is strictly later than now, on the day of now; an entry equal to now counts as
  past. When no entry is strictly later it returns the earliest entry of the schedule on the
  following day. The method does not sort: the caller's order is what it scans.
\<close>

theorem getNextStrikeTime_sorted:
  assumes ne: "strikeSchedule s \<noteq> []"
    and wfl: "list_all wellFormed (strikeSchedule s)"
    and srt: "sorted (map timeOfDay (strikeSchedule s))"
    and h: "hours now < 24" and m: "minutes now < 60"
  shows "\<exists>d. getNextStrikeTime now s = Inr d \<and> entry d \<in> set (strikeSchedule s) \<and>
    (if \<exists>e\<in>set (strikeSchedule s). nowOfDay now < timeOfDay e
     then onDate d = now \<and> nowOfDay now < timeOfDay (entry d) \<and>
          (\<forall>e\<in>set (strikeSchedule s). nowOfDay now < timeOfDay e \<longrightarrow> timeOfDay (entry d) \<le> timeOfDay e)
     else onDate d = now\<lparr>dayNo := dayNo now + 1\<rparr> \<and>
          (\<forall>e\<in>set (strikeSchedule s). timeOfDay (entry d) \<le> timeOfDay e))"
proof -
  from wfl have wf: "\<forall>e\<in>set (strikeSchedule s). wellFormed e"
    by (simp add: list_all_iff)
  note ct = currentTime_wellFormed[OF h m]
  have lt: "\<And>e. e \<in> set (strikeSchedule s) \<Longrightarrow> (currentTime now < e) = (nowOfDay now < timeOfDay e)"
    using less_timeOfDay[of "currentTime now"] ct wf by auto
  show ?thesis
  proof (cases "firstLater (currentTime now) (strikeSchedule s)")
    case None
    then have no: "\<forall>e\<in>set (strikeSchedule s). \<not> nowOfDay now < timeOfDay e"
      using lt by (simp add: firstLater_None)
    from ne obtain t0 rest where sch: "strikeSchedule s = t0 # rest" by (cases "strikeSchedule s") auto
    from srt sch have "\<forall>e\<in>set (strikeSchedule s). timeOfDay t0 \<le> timeOfDay e" by auto
    with None no sch show ?thesis by (simp add: getNextStrikeTime_def)
  next
    case (Some t)
    from firstLater_Some[OF Some] obtain ys zs where
      dec: "strikeSchedule s = ys @ t # zs" "currentTime now < t" "\<forall>y\<in>set ys. \<not> currentTime now < y"
      by blast
    have tin: "t \<in> set (strikeSchedule s)" using dec by simp
    have later: "nowOfDay now < timeOfDay t" using lt[OF tin] dec by simp
    have "timeOfDay t \<le> timeOfDay e" if e: "e \<in> set (strikeSchedule s)" "nowOfDay now < timeOfDay e" for e
    proof -
      from e lt dec have "e \<notin> set ys" by auto
      with e dec have "e = t \<or> e \<in> set zs" by auto
      moreover from srt dec have "\<forall>z\<in>set zs. timeOfDay t \<le> timeOfDay z"
        by (auto simp: sorted_append)
      ultimately show ?thesis by auto
    qed
    with Some tin later show ?thesis by (auto simp: getNextStrikeTime_def)
  qed
qed

theorem getNextStrikeTime_sorted_witness:
  "strikeSchedule demoFund \<noteq> [] \<and> list_all wellFormed (strikeSchedule demoFund) \<and>
   sorted (map timeOfDay (strikeSchedule demoFund)) \<and> hours at0930 < 24 \<and> minutes at0930 < 60 \<and>
   getNextStrikeTime at0930 demoFund = Inr \<lparr>onDate = at0930, entry = ''12:00''\<rparr> \<and>
   (\<exists>d. getNextStrikeTime at0930 demoFund = Inr d \<and> entry d \<in> set (strikeSchedule demoFund) \<and>
    (if \<exists>e\<in>set (strikeSchedule demoFund). nowOfDay at0930 < timeOfDay e
     then onDate d = at0930 \<and> nowOfDay at0930 < timeOfDay (entry d) \<and>
          (\<forall>e\<in>set (strikeSchedule demoFund).
             nowOfDay at0930 < timeOfDay e \<longrightarrow> timeOfDay (entry d) \<le> timeOfDay e)
     else onDate d = at0930\<lparr>dayNo := dayNo at0930 + 1\<rparr> \<and>
          (\<forall>e\<in>set (strikeSchedule demoFund). timeOfDay (entry d) \<le> timeOfDay e)))"
proof -
  have ne: "strikeSchedule demoFund \<noteq> []" by code_simp
  have wf: "list_all wellFormed (strikeSchedule demoFund)" by code_simp
  have srt: "sorted (map timeOfDay (strikeSchedule demoFund))" by code_simp
  have h: "hours at0930 < 24" by code_simp
  have m: "minutes at0930 < 60" by code_simp
  have v: "getNextStrikeTime at0930 demoFund = Inr \<lparr>onDate = at0930, entry = ''12:00''\<rparr>"
    by code_simp
  from getNextStrikeTime_sorted[OF ne wf srt h m] ne wf srt h m v show ?thesis by blast
qed

text \<open>
  Claim C8 as stated fails for a schedule that the caller did not sort: with the schedule
  \<open>["12:00", "09:30"]\<close> at 08:00 the method returns 12:00, although 09:30 is strictly later
  than now and earlier than 12:00.
\<close>

theorem getNextStrikeTime_unsorted_counterexample:
  "getNextStrikeTime at0800 unsortedFund = Inr \<lparr>onDate = at0800, entry = ''12:00''\<rparr> \<and>
   ''09:30'' \<in> set (strikeSchedule unsortedFund) \<and>
   nowOfDay at0800 < timeOfDay ''09:30'' \<and> timeOfDay ''09:30'' < timeOfDay ''12:00''"
  by code_simp

section \<open>Settlement loops\<close>

lemma setStatus_simps [simp]:
  "currentNAV (setStatus r v s) = currentNAV s"
  "totalAUM (setStatus r v s) = totalAUM s"
  "totalSharesOutstanding (setStatus r v s) = totalSharesOutstanding s"
  "strikeSchedule (setStatus r v s) = strikeSchedule s"
  "lastStrikeTime (setStatus r v s) = lastStrikeTime s"
  "pendingOrders (setStatus r v s) = pendingOrders s"
  "orderCounter (setStatus r v s) = orderCounter s"
  "arrayObjs (setStatus r v s) = arrayObjs s"
  "nextOrder (setStatus r v s) = nextOrder s"
  "nextArray (setStatus r v s) = nextArray s"
  "orderObjs (setStatus r v s) r' = (if r' = r then (orderObjs s r)\<lparr>status := v\<rparr> else orderObjs s r')"
  by (simp_all add: setStatus_def)

lemma processSubscription_eq:
  "processSubscription (prepare L k) (sendAndConfirm L k) now (investor x) (amount x) s =
     (case subscriptionConfirmed L k (currentNAV s) x of
        None \<Rightarrow> (Inl (if prepare L k \<and> currentNAV s = 0 then RangeError else LedgerError), s)
      | Some sig \<Rightarrow>
          (Inr \<lparr>signature_s = sig, usdcAmount = amount x, sharesIssued = amount x / currentNAV s,
                executionNAV_s = currentNAV s, timestamp_s = now\<rparr>,
           s\<lparr>totalAUM := totalAUM s + amount x,
             totalSharesOutstanding := totalSharesOutstanding s + amount x / currentNAV s\<rparr>))"
  by (simp add: processSubscription_def subscriptionConfirmed_def Let_def split: option.splits)

lemma processRedemption_eq:
  "processRedemption (prepare L k) (sendAndConfirm L k) now (investor x) (amount x) s =
     (case redemptionConfirmed L k (currentNAV s) x of
        None \<Rightarrow> (Inl LedgerError, s)
      | Some sig \<Rightarrow>
          (Inr \<lparr>signature_r = sig, sharesRedeemed = amount x, usdcPaid = amount x * currentNAV s,
                executionNAV_r = currentNAV s, timestamp_r = now\<rparr>,
           s\<lparr>totalAUM := totalAUM s - amount x * currentNAV s,
             totalSharesOutstanding := totalSharesOutstanding s - amount x\<rparr>))"
  by (simp add: processRedemption_def redemptionConfirmed_def Let_def split: option.splits)

text \<open>One iteration of each loop, by the answer of the ledger.\<close>

lemma subscriptionLoop_Cons:
  "subscriptionLoop L k (r # rs) (s, t, rcs) =
     (case subscriptionConfirmed L k (currentNAV s) (orderObjs s r) of
        None \<Rightarrow> subscriptionLoop L (Suc k) rs (setStatus r Failed s, t, rcs)
      | Some sig \<Rightarrow>
          subscriptionLoop L (Suc k) rs
            (setStatus r Executed
               (s\<lparr>totalAUM := totalAUM s + amount (orderObjs s r),
                  totalSharesOutstanding :=
                    totalSharesOutstanding s + amount (orderObjs s r) / currentNAV s\<rparr>),
             t\<lparr>signatures := signatures t @ [sig],
               totalUSDCSubscribed := totalUSDCSubscribed t + amount (orderObjs s r),
               totalSharesMinted := totalSharesMinted t + amount (orderObjs s r) / currentNAV s,
               subscriptionsProcessed := subscriptionsProcessed t + 1\<rparr>,
             rcs @ [SubscriptionReceipt
                      \<lparr>signature_s = sig, usdcAmount = amount (orderObjs s r),
                       sharesIssued = amount (orderObjs s r) / currentNAV s,
                       executionNAV_s = currentNAV s, timestamp_s = confirmClock L k\<rparr>]))"
  by (simp add: processSubscription_eq split: option.splits)

lemma redemptionLoop_Cons:
  "redemptionLoop L k (r # rs) (s, t, rcs) =
     (case redemptionConfirmed L k (currentNAV s) (orderObjs s r) of
        None \<Rightarrow> redemptionLoop L (Suc k) rs (setStatus r Failed s, t, rcs)
      | Some sig \<Rightarrow>
          redemptionLoop L (Suc k) rs
            (setStatus r Executed
               (s\<lparr>totalAUM := totalAUM s - amount (orderObjs s r) * currentNAV s,
                  totalSharesOutstanding := totalSharesOutstanding s - amount (orderObjs s r)\<rparr>),
             t\<lparr>signatures := signatures t @ [sig],
               totalSharesRedeemed := totalSharesRedeemed t + amount (orderObjs s r),
               totalUSDCPaid := totalUSDCPaid t + amount (orderObjs s r) * currentNAV s,
               redemptionsProcessed := redemptionsProcessed t + 1\<rparr>,
             rcs @ [RedemptionReceipt
                      \<lparr>signature_r = sig, sharesRedeemed = amount (orderObjs s r),
                       usdcPaid = amount (orderObjs s r) * currentNAV s,
                       executionNAV_r = currentNAV s, timestamp_r = confirmClock L k\<rparr>]))"
  by (simp add: processRedemption_eq split: option.splits)

declare subscriptionLoop.simps(2) [simp del] redemptionLoop.simps(2) [simp del]

lemma sameEngine_refl [simp]: "sameEngine s s"
  by (simp add: sameEngine_def)

lemma subscriptionLoop_frame:
  "subscriptionLoop L k rs (s, t, rcs) = (s', t', rcs') \<Longrightarrow> sameEngine s s'"
proof (induction rs arbitrary: k s t rcs)
  case Nil
  then show ?case by simp
next
  case (Cons r rs)
  from Cons.prems show ?case
    by (auto simp: subscriptionLoop_Cons sameEngine_def split: option.splits dest!: Cons.IH)
qed

lemma redemptionLoop_frame:
  "redemptionLoop L k rs (s, t, rcs) = (s', t', rcs') \<Longrightarrow> sameEngine s s'"
proof (induction rs arbitrary: k s t rcs)
  case Nil
  then show ?case by simp
next
  case (Cons r rs)
  from Cons.prems show ?case
    by (auto simp: redemptionLoop_Cons sameEngine_def split: option.splits dest!: Cons.IH)
qed

text \<open>Order objects outside the snapshot are not written; inside, only the status is.\<close>

lemma subscriptionLoop_untouched:
  "subscriptionLoop L k rs (s, t, rcs) = (s', t', rcs') \<Longrightarrow> r \<notin> set rs \<Longrightarrow>
     orderObjs s' r = orderObjs s r"
proof (induction rs arbitrary: k s t rcs)
  case Nil
  then show ?case by simp
next
  case (Cons a rs)
  from Cons.prems show ?case
    by (auto simp: subscriptionLoop_Cons split: option.splits dest!: Cons.IH)
qed

lemma redemptionLoop_untouched:
  "redemptionLoop L k rs (s, t, rcs) = (s', t', rcs') \<Longrightarrow> r \<notin> set rs \<Longrightarrow>
     orderObjs s' r = orderObjs s r"
proof (induction rs arbitrary: k s t rcs)
  case Nil
  then show ?case by simp
next
  case (Cons a rs)
  from Cons.prems show ?case
    by (auto simp: redemptionLoop_Cons split: option.splits dest!: Cons.IH)
qed

lemma subscriptionLoop_terminal_kept:
  "subscriptionLoop L k rs (s, t, rcs) = (s', t', rcs') \<Longrightarrow>
     status (orderObjs s r) \<noteq> Pending \<Longrightarrow> status (orderObjs s' r) \<noteq> Pending"
proof (induction rs arbitrary: k s t rcs)
  case Nil
  then show ?case by simp
next
  case (Cons a rs)
  from Cons.prems show ?case
    by (auto simp: subscriptionLoop_Cons split: option.splits if_splits dest!: Cons.IH)
qed

lemma redemptionLoop_terminal_kept:
  "redemptionLoop L k rs (s, t, rcs) = (s', t', rcs') \<Longrightarrow>
     status (orderObjs s r) \<noteq> Pending \<Longrightarrow> status (orderObjs s' r) \<noteq> Pending"
proof (induction rs arbitrary: k s t rcs)
  case Nil
  then show ?case by simp
next
  case (Cons a rs)
  from Cons.prems show ?case
    by (auto simp: redemptionLoop_Cons split: option.splits if_splits dest!: Cons.IH)
qed

lemma subscriptionLoop_terminal:
  "subscriptionLoop L k rs (s, t, rcs) = (s', t', rcs') \<Longrightarrow> r \<in> set rs \<Longrightarrow>
     status (orderObjs s' r) \<noteq> Pending"
proof (induction rs arbitrary: k s t rcs)
  case Nil
  then show ?case by simp
next
  case (Cons a rs)
  show ?case
  proof (cases "r \<in> set rs")
    case True
    with Cons.prems(1) show ?thesis
      by (auto simp: subscriptionLoop_Cons split: option.splits dest!: Cons.IH)
  next
    case False
    with Cons.prems have [simp]: "r = a" by simp
    from Cons.prems(1) False show ?thesis
      by (auto simp: subscriptionLoop_Cons split: option.splits dest!: subscriptionLoop_untouched)
  qed
qed

lemma redemptionLoop_terminal:
  "redemptionLoop L k rs (s, t, rcs) = (s', t', rcs') \<Longrightarrow> r \<in> set rs \<Longrightarrow>
     status (orderObjs s' r) \<noteq> Pending"
proof (induction rs arbitrary: k s t rcs)
  case Nil
  then show ?case by simp
next
  case (Cons a rs)
  show ?case
  proof (cases "r \<in> set rs")
    case True
    with Cons.prems(1) show ?thesis
      by (auto simp: redemptionLoop_Cons split: option.splits dest!: Cons.IH)
  next
    case False
    with Cons.prems have [simp]: "r = a" by simp
    from Cons.prems(1) False show ?thesis
      by (auto simp: redemptionLoop_Cons split: option.splits dest!: redemptionLoop_untouched)
  qed
qed

lemma subscriptionLoop_status:
  "subscriptionLoop L k rs (s, t, rcs) = (s', t', rcs') \<Longrightarrow> distinct rs \<Longrightarrow> i < length rs \<Longrightarrow>
     status (orderObjs s' (rs ! i)) =
       (if subscriptionConfirmed L (k + i) (currentNAV s) (orderObjs s (rs ! i)) = None
        then Failed else Executed)"
proof (induction rs arbitrary: k s t rcs i)
  case Nil
  then show ?case by simp
next
  case (Cons a rs)
  from Cons.prems(1) obtain s1 t1 rcs1 where
    rest: "subscriptionLoop L (Suc k) rs (s1, t1, rcs1) = (s', t', rcs')"
    and nav: "currentNAV s1 = currentNAV s"
    and other: "\<And>r. r \<noteq> a \<Longrightarrow> orderObjs s1 r = orderObjs s r"
    and here: "status (orderObjs s1 a) =
       (if subscriptionConfirmed L k (currentNAV s) (orderObjs s a) = None then Failed else Executed)"
    by (auto simp: subscriptionLoop_Cons split: option.splits)
  show ?case
  proof (cases i)
    case 0
    from Cons.prems(2) have "a \<notin> set rs" by simp
    from subscriptionLoop_untouched[OF rest this] here 0 show ?thesis by simp
  next
    case (Suc j)
    with Cons.prems have j: "j < length rs" and d: "distinct rs" and ne: "rs ! j \<noteq> a"
      by auto
    from Cons.IH[OF rest d j] nav other[OF ne] Suc show ?thesis by simp
  qed
qed

lemma redemptionLoop_status:
  "redemptionLoop L k rs (s, t, rcs) = (s', t', rcs') \<Longrightarrow> distinct rs \<Longrightarrow> i < length rs \<Longrightarrow>
     status (orderObjs s' (rs ! i)) =
       (if redemptionConfirmed L (k + i) (currentNAV s) (orderObjs s (rs ! i)) = None
        then Failed else Executed)"
proof (induction rs arbitrary: k s t rcs i)
  case Nil
  then show ?case by simp
next
  case (Cons a rs)
  from Cons.prems(1) obtain s1 t1 rcs1 where
    rest: "redemptionLoop L (Suc k) rs (s1, t1, rcs1) = (s', t', rcs')"
    and nav: "currentNAV s1 = currentNAV s"
    and other: "\<And>r. r \<noteq> a \<Longrightarrow> orderObjs s1 r = orderObjs s r"
    and here: "status (orderObjs s1 a) =
       (if redemptionConfirmed L k (currentNAV s) (orderObjs s a) = None then Failed else Executed)"
    by (auto simp: redemptionLoop_Cons split: option.splits)
  show ?case
  proof (cases i)
    case 0
    from Cons.prems(2) have "a \<notin> set rs" by simp
    from redemptionLoop_untouched[OF rest this] here 0 show ?thesis by simp
  next
    case (Suc j)
    with Cons.prems have j: "j < length rs" and d: "distinct rs" and ne: "rs ! j \<noteq> a"
      by auto
    from Cons.IH[OF rest d j] nav other[OF ne] Suc show ?thesis by simp
  qed
qed

lemma subscriptionLoop_totals:
  "subscriptionLoop L k rs (s, t, rcs) = (s', t', rcs') \<Longrightarrow> distinct rs \<Longrightarrow>
     totalAUM s' = totalAUM s + (\<Sum>i<length rs. subscribedAt L (currentNAV s) (k + i) (orderObjs s (rs ! i))) \<and>
     totalSharesOutstanding s' = totalSharesOutstanding s +
        (\<Sum>i<length rs. subscribedAt L (currentNAV s) (k + i) (orderObjs s (rs ! i)) / currentNAV s)"
proof (induction rs arbitrary: k s t rcs)
  case Nil
  then show ?case by simp
next
  case (Cons a rs)
  from Cons.prems(1) obtain s1 t1 rcs1 where
    rest: "subscriptionLoop L (Suc k) rs (s1, t1, rcs1) = (s', t', rcs')"
    and nav: "currentNAV s1 = currentNAV s"
    and other: "\<And>r. r \<noteq> a \<Longrightarrow> orderObjs s1 r = orderObjs s r"
    and aum: "totalAUM s1 = totalAUM s + subscribedAt L (currentNAV s) k (orderObjs s a)"
    and shares: "totalSharesOutstanding s1 =
       totalSharesOutstanding s + subscribedAt L (currentNAV s) k (orderObjs s a) / currentNAV s"
    by (auto simp: subscriptionLoop_Cons subscribedAt_def split: option.splits)
  from Cons.prems(2) have d: "distinct rs" and "a \<notin> set rs" by auto
  then have same: "\<And>i. i < length rs \<Longrightarrow> orderObjs s1 (rs ! i) = orderObjs s (rs ! i)"
    using other by (metis nth_mem)
  from Cons.IH[OF rest d] nav aum shares same show ?case
    by (simp add: sum.lessThan_Suc_shift del: sum.lessThan_Suc)
qed

lemma redemptionLoop_totals:
  "redemptionLoop L k rs (s, t, rcs) = (s', t', rcs') \<Longrightarrow> distinct rs \<Longrightarrow>
     totalAUM s' = totalAUM s - (\<Sum>i<length rs. redeemedAt L (currentNAV s) (k + i) (orderObjs s (rs ! i)) * currentNAV s) \<and>
     totalSharesOutstanding s' = totalSharesOutstanding s -
        (\<Sum>i<length rs. redeemedAt L (currentNAV s) (k + i) (orderObjs s (rs ! i)))"
proof (induction rs arbitrary: k s t rcs)
  case Nil
  then show ?case by simp
next
  case (Cons a rs)
  from Cons.prems(1) obtain s1 t1 rcs1 where
    rest: "redemptionLoop L (Suc k) rs (s1, t1, rcs1) = (s', t', rcs')"
    and nav: "currentNAV s1 = currentNAV s"
    and other: "\<And>r. r \<noteq> a \<Longrightarrow> orderObjs s1 r = orderObjs s r"
    and aum: "totalAUM s1 = totalAUM s - redeemedAt L (currentNAV s) k (orderObjs s a) * currentNAV s"
    and shares: "totalSharesOutstanding s1 =
       totalSharesOutstanding s - redeemedAt L (currentNAV s) k (orderObjs s a)"
    by (auto simp: redemptionLoop_Cons redeemedAt_def split: option.splits)
  from Cons.prems(2) have d: "distinct rs" and "a \<notin> set rs" by auto
  then have same: "\<And>i. i < length rs \<Longrightarrow> orderObjs s1 (rs ! i) = orderObjs s (rs ! i)"
    using other by (metis nth_mem)
  from Cons.IH[OF rest d] nav aum shares same show ?case
    by (simp add: sum.lessThan_Suc_shift del: sum.lessThan_Suc)
qed

text \<open>Every receipt carries the NAV of the state the loop runs in, and there is one receipt
  per processed order of the tally.\<close>

lemma subscriptionLoop_receipts:
  "subscriptionLoop L k rs (s, t, rcs) = (s', t', rcs') \<Longrightarrow>
     (\<forall>x\<in>set rcs. executionNAV x = currentNAV s) \<Longrightarrow>
     length rcs = subscriptionsProcessed t + redemptionsProcessed t \<Longrightarrow>
     (\<forall>x\<in>set rcs'. executionNAV x = currentNAV s) \<and>
     length rcs' = subscriptionsProcessed t' + redemptionsProcessed t'"
proof (induction rs arbitrary: k s t rcs)
  case Nil
  then show ?case by simp
next
  case (Cons a rs)
  from Cons.prems show ?case
    by (auto simp: subscriptionLoop_Cons split: option.splits dest!: Cons.IH)
qed

lemma redemptionLoop_receipts:
  "redemptionLoop L k rs (s, t, rcs) = (s', t', rcs') \<Longrightarrow>
     (\<forall>x\<in>set rcs. executionNAV x = currentNAV s) \<Longrightarrow>
     length rcs = subscriptionsProcessed t + redemptionsProcessed t \<Longrightarrow>
     (\<forall>x\<in>set rcs'. executionNAV x = currentNAV s) \<and>
     length rcs' = subscriptionsProcessed t' + redemptionsProcessed t'"
proof (induction rs arbitrary: k s t rcs)
  case Nil
  then show ?case by simp
next
  case (Cons a rs)
  from Cons.prems show ?case
    by (auto simp: redemptionLoop_Cons split: option.splits dest!: Cons.IH)
qed

section \<open>Properties of a strike\<close>

lemma Inr_collapse: "\<not> isl (fst p) \<Longrightarrow> p = (Inr (projr (fst p)), snd p)"
  by (cases p) (auto simp: isl_def)

lemma pendingOf_updateNAV [simp]:
  "pendingOf ty (s\<lparr>currentNAV := v, lastStrikeTime := d\<rparr>) = pendingOf ty s"
  by (simp add: pendingOf_def)

lemma executeStrike_InrE:
  assumes "executeStrike L newNAV s = (Inr rep, s')"
  obtains sa ta ra s2 t rcs sig where
    "publishNAV L newNAV (navClock L) (totalAUM s) = Some sig"
    "subscriptionLoop L 0 (pendingOf Subscribe s)
       (s\<lparr>currentNAV := newNAV, lastStrikeTime := navClock L\<rparr>, emptyTally, []) = (sa, ta, ra)"
    "redemptionLoop L (length (pendingOf Subscribe s)) (pendingOf Redeem s) (sa, ta, ra) = (s2, t, rcs)"
    "s' = s2\<lparr>arrayObjs := (arrayObjs s2)(nextArray s2 :=
                   filter (\<lambda>r. status (orderObjs s2 r) = Pending) (arrayObjs s2 (pendingOrders s2))),
             nextArray := nextArray s2 + 1, pendingOrders := nextArray s2\<rparr>"
    "rep = tally.extend t \<lparr>strikeId = ''STRIKE-'' @ natToString (epochMillis L),
                           strikeTime_k = strikeClock L, nav = currentNAV s2\<rparr>"
    "strikeReceipts L newNAV s = rcs"
proof -
  let ?s1 = "s\<lparr>currentNAV := newNAV, lastStrikeTime := navClock L\<rparr>"
  obtain sa ta ra where a: "subscriptionLoop L 0 (pendingOf Subscribe s) (?s1, emptyTally, []) = (sa, ta, ra)"
    by (metis prod_cases3)
  obtain s2 t rcs where b: "redemptionLoop L (length (pendingOf Subscribe s)) (pendingOf Redeem s) (sa, ta, ra) = (s2, t, rcs)"
    by (metis prod_cases3)
  from assms obtain sig where p: "publishNAV L newNAV (navClock L) (totalAUM s) = Some sig"
    by (auto simp: executeStrike_def updateNAV_def Let_def split: option.splits)
  have so: "settleOrders L ?s1 = (s2, t, rcs)"
    using a b by (simp add: settleOrders_def Let_def)
  from assms p so have
    "s' = s2\<lparr>arrayObjs := (arrayObjs s2)(nextArray s2 :=
                   filter (\<lambda>r. status (orderObjs s2 r) = Pending) (arrayObjs s2 (pendingOrders s2))),
             nextArray := nextArray s2 + 1, pendingOrders := nextArray s2\<rparr>"
    "rep = tally.extend t \<lparr>strikeId = ''STRIKE-'' @ natToString (epochMillis L),
                           strikeTime_k = strikeClock L, nav = currentNAV s2\<rparr>"
    by (auto simp: executeStrike_def updateNAV_def Let_def)
  moreover from p so have "strikeReceipts L newNAV s = rcs"
    by (simp add: strikeReceipts_def updateNAV_def Let_def)
  ultimately show ?thesis using that p a b by blast
qed

lemma pendingOf_cases:
  "r \<in> set (queue s) \<Longrightarrow> status (orderObjs s r) = Pending \<Longrightarrow>
     r \<in> set (pendingOf Subscribe s) \<or> r \<in> set (pendingOf Redeem s)"
  by (cases "orderType (orderObjs s r)") (auto simp: pendingOf_def queue_def)

text \<open>
  Claim C3. After a strike that returns, every order of the queue that was pending before it
  (whatever its target strike time: the method does not read it) is executed or failed,
  never pending; the new queue is the old one without the orders that are terminal now,
  those of this strike and earlier ones alike, and an order still pending would be kept.
\<close>

theorem executeStrike_leaves_no_pending:
  assumes run: "executeStrike L newNAV s = (Inr rep, s')"
  shows "(\<forall>r\<in>set (queue s). status (orderObjs s r) = Pending \<longrightarrow>
            status (orderObjs s' r) = Executed \<or> status (orderObjs s' r) = Failed) \<and>
         queue s' = filter (\<lambda>r. status (orderObjs s' r) = Pending) (queue s) \<and>
         (\<forall>r\<in>set (queue s). status (orderObjs s' r) = Pending \<longrightarrow> r \<in> set (queue s')) \<and>
         (\<forall>r\<in>set (queue s). status (orderObjs s' r) \<noteq> Pending \<longrightarrow> r \<notin> set (queue s'))"
proof -
  let ?s1 = "s\<lparr>currentNAV := newNAV, lastStrikeTime := navClock L\<rparr>"
  from run obtain sa ta ra s2 t rcs where
    a: "subscriptionLoop L 0 (pendingOf Subscribe s) (?s1, emptyTally, []) = (sa, ta, ra)" and
    b: "redemptionLoop L (length (pendingOf Subscribe s)) (pendingOf Redeem s) (sa, ta, ra) = (s2, t, rcs)" and
    s': "s' = s2\<lparr>arrayObjs := (arrayObjs s2)(nextArray s2 :=
                   filter (\<lambda>r. status (orderObjs s2 r) = Pending) (arrayObjs s2 (pendingOrders s2))),
             nextArray := nextArray s2 + 1, pendingOrders := nextArray s2\<rparr>"
    by (rule executeStrike_InrE)
  have objs: "orderObjs s' = orderObjs s2" using s' by simp
  from subscriptionLoop_frame[OF a] redemptionLoop_frame[OF b]
  have q2: "arrayObjs s2 (pendingOrders s2) = queue s"
    by (simp add: sameEngine_def queue_def)
  have q': "queue s' = filter (\<lambda>r. status (orderObjs s' r) = Pending) (queue s)"
    using s' q2 by (simp add: queue_def)
  have trm: "status (orderObjs s' r) \<noteq> Pending"
    if r: "r \<in> set (queue s)" "status (orderObjs s r) = Pending" for r
  proof -
    from pendingOf_cases[OF r] show ?thesis
    proof
      assume "r \<in> set (pendingOf Subscribe s)"
      from subscriptionLoop_terminal[OF a this] redemptionLoop_terminal_kept[OF b] objs
      show ?thesis by simp
    next
      assume "r \<in> set (pendingOf Redeem s)"
      from redemptionLoop_terminal[OF b this] objs show ?thesis by simp
    qed
  qed
  have "status (orderObjs s' r) = Executed \<or> status (orderObjs s' r) = Failed"
    if r: "r \<in> set (queue s)" "status (orderObjs s r) = Pending" for r
    using trm[OF r] by (cases "status (orderObjs s' r)") auto
  with q' show ?thesis by auto
qed

theorem executeStrike_leaves_no_pending_witness:
  "\<not> isl (fst (executeStrike flakyLedger 1 demoQueue)) \<and>
   queue demoQueue = [0, 1, 2] \<and> status (orderObjs demoQueue 1) = Pending \<and>
   (status (orderObjs (snd (executeStrike flakyLedger 1 demoQueue)) 1) = Executed \<or>
    status (orderObjs (snd (executeStrike flakyLedger 1 demoQueue)) 1) = Failed) \<and>
   queue (snd (executeStrike flakyLedger 1 demoQueue)) =
     filter (\<lambda>r. status (orderObjs (snd (executeStrike flakyLedger 1 demoQueue)) r) = Pending)
       (queue demoQueue)"
proof -
  have ok: "\<not> isl (fst (executeStrike flakyLedger 1 demoQueue))" by code_simp
  have q: "queue demoQueue = [0, 1, 2]" by code_simp
  have p: "status (orderObjs demoQueue 1) = Pending" by code_simp
  from executeStrike_leaves_no_pending[OF Inr_collapse[OF ok]] ok q p show ?thesis by simp
qed

text \<open>
  Claim C2. Every receipt that the settlements of one strike return carries the same
  execution NAV, the NAV passed to that strike, which is also the NAV of the report and the
  engine's NAV afterwards. The statement holds for every strike, so a later strike at
  another NAV stamps its own receipts with its own NAV.
\<close>

theorem executeStrike_single_price:
  assumes run: "executeStrike L newNAV s = (Inr rep, s')"
  shows "(\<forall>x\<in>set (strikeReceipts L newNAV s). executionNAV x = newNAV) \<and>
         length (strikeReceipts L newNAV s) = subscriptionsProcessed rep + redemptionsProcessed rep \<and>
         nav rep = newNAV \<and> currentNAV s' = newNAV"
proof -
  let ?s1 = "s\<lparr>currentNAV := newNAV, lastStrikeTime := navClock L\<rparr>"
  from run obtain sa ta ra s2 t rcs where
    a: "subscriptionLoop L 0 (pendingOf Subscribe s) (?s1, emptyTally, []) = (sa, ta, ra)" and
    b: "redemptionLoop L (length (pendingOf Subscribe s)) (pendingOf Redeem s) (sa, ta, ra) = (s2, t, rcs)" and
    s': "s' = s2\<lparr>arrayObjs := (arrayObjs s2)(nextArray s2 :=
                   filter (\<lambda>r. status (orderObjs s2 r) = Pending) (arrayObjs s2 (pendingOrders s2))),
             nextArray := nextArray s2 + 1, pendingOrders := nextArray s2\<rparr>" and
    rep: "rep = tally.extend t \<lparr>strikeId = ''STRIKE-'' @ natToString (epochMillis L),
                           strikeTime_k = strikeClock L, nav = currentNAV s2\<rparr>" and
    rc: "strikeReceipts L newNAV s = rcs"
    by (rule executeStrike_InrE)
  from subscriptionLoop_frame[OF a] have na: "currentNAV sa = newNAV" by (simp add: sameEngine_def)
  from redemptionLoop_frame[OF b] na have n2: "currentNAV s2 = newNAV" by (simp add: sameEngine_def)
  from subscriptionLoop_receipts[OF a] have
    ra: "(\<forall>x\<in>set ra. executionNAV x = newNAV) \<and> length ra = subscriptionsProcessed ta + redemptionsProcessed ta"
    by (simp add: emptyTally_def)
  from redemptionLoop_receipts[OF b] ra na have
    "(\<forall>x\<in>set rcs. executionNAV x = newNAV) \<and> length rcs = subscriptionsProcessed t + redemptionsProcessed t"
    by simp
  with rc rep n2 s' show ?thesis by (simp add: tally.defs)
qed

theorem executeStrike_single_price_witness:
  "\<not> isl (fst (executeStrike flakyLedger (51 / 50) secondQueue)) \<and>
   map executionNAV (strikeReceipts okLedger 1 demoQueue) = [1, 1, 1] \<and>
   map executionNAV (strikeReceipts flakyLedger (51 / 50) secondQueue) = [51 / 50] \<and>
   list_all (\<lambda>x. executionNAV x = 51 / 50) (strikeReceipts flakyLedger (51 / 50) secondQueue) \<and>
   currentNAV (snd (executeStrike flakyLedger (51 / 50) secondQueue)) = 51 / 50"
proof -
  have ok: "\<not> isl (fst (executeStrike flakyLedger (51 / 50) secondQueue))" by code_simp
  have v1: "map executionNAV (strikeReceipts okLedger 1 demoQueue) = [1, 1, 1]"
    by code_simp
  have v2: "map executionNAV (strikeReceipts flakyLedger (51 / 50) secondQueue) = [51 / 50]"
    by code_simp
  from executeStrike_single_price[OF Inr_collapse[OF ok]] ok v1 v2 show ?thesis
    by (simp add: list_all_iff)
qed

section \<open>The totals and the statuses after a strike\<close>

lemma executeStrike_publish_failure:
  "publishNAV L newNAV (navClock L) (totalAUM s) = None \<Longrightarrow>
     executeStrike L newNAV s = (Inl LedgerError, s\<lparr>currentNAV := newNAV, lastStrikeTime := navClock L\<rparr>)"
  by (simp add: executeStrike_def updateNAV_def Let_def)

lemma executeStrike_publish_success:
  "publishNAV L newNAV (navClock L) (totalAUM s) = Some sig \<Longrightarrow>
     \<exists>rep s'. executeStrike L newNAV s = (Inr rep, s')"
  by (simp add: executeStrike_def updateNAV_def Let_def split: prod.splits)

lemma pendingOf_distinct: "distinct (queue s) \<Longrightarrow> distinct (pendingOf ty s)"
  by (simp add: pendingOf_def queue_def)

lemma pendingOf_disjoint:
  "r \<in> set (pendingOf Subscribe s) \<Longrightarrow> r \<notin> set (pendingOf Redeem s)"
  by (auto simp: pendingOf_def)

lemma executeStrike_effect:
  assumes run: "executeStrike L newNAV s = (Inr rep, s')" and d: "distinct (queue s)"
  shows "(\<forall>i<length (pendingOf Subscribe s).
            status (orderObjs s' (pendingOf Subscribe s ! i)) =
              (if subscriptionConfirmed L i newNAV (orderObjs s (pendingOf Subscribe s ! i)) = None
               then Failed else Executed)) \<and>
         (\<forall>j<length (pendingOf Redeem s).
            status (orderObjs s' (pendingOf Redeem s ! j)) =
              (if redemptionConfirmed L (length (pendingOf Subscribe s) + j) newNAV
                    (orderObjs s (pendingOf Redeem s ! j)) = None
               then Failed else Executed)) \<and>
         totalAUM s' = totalAUM s +
            (\<Sum>i<length (pendingOf Subscribe s).
                subscribedAt L newNAV i (orderObjs s (pendingOf Subscribe s ! i))) -
            (\<Sum>j<length (pendingOf Redeem s).
                redeemedAt L newNAV (length (pendingOf Subscribe s) + j)
                  (orderObjs s (pendingOf Redeem s ! j)) * newNAV) \<and>
         totalSharesOutstanding s' = totalSharesOutstanding s +
            (\<Sum>i<length (pendingOf Subscribe s).
                subscribedAt L newNAV i (orderObjs s (pendingOf Subscribe s ! i)) / newNAV) -
            (\<Sum>j<length (pendingOf Redeem s).
                redeemedAt L newNAV (length (pendingOf Subscribe s) + j)
                  (orderObjs s (pendingOf Redeem s ! j)))"
proof -
  let ?s1 = "s\<lparr>currentNAV := newNAV, lastStrikeTime := navClock L\<rparr>"
  let ?subs = "pendingOf Subscribe s" and ?reds = "pendingOf Redeem s"
  from run obtain sa ta ra s2 t rcs where
    a: "subscriptionLoop L 0 ?subs (?s1, emptyTally, []) = (sa, ta, ra)" and
    b: "redemptionLoop L (length ?subs) ?reds (sa, ta, ra) = (s2, t, rcs)" and
    s': "s' = s2\<lparr>arrayObjs := (arrayObjs s2)(nextArray s2 :=
                   filter (\<lambda>r. status (orderObjs s2 r) = Pending) (arrayObjs s2 (pendingOrders s2))),
             nextArray := nextArray s2 + 1, pendingOrders := nextArray s2\<rparr>"
    by (rule executeStrike_InrE)
  have ds: "distinct ?subs" and dr: "distinct ?reds" using d by (simp_all add: pendingOf_distinct)
  from subscriptionLoop_frame[OF a] have na: "currentNAV sa = newNAV" by (simp add: sameEngine_def)
  have reds_a: "orderObjs sa (?reds ! j) = orderObjs s (?reds ! j)" if "j < length ?reds" for j
  proof -
    from that have "?reds ! j \<in> set ?reds" by simp
    then have "?reds ! j \<notin> set ?subs" using pendingOf_disjoint by blast
    from subscriptionLoop_untouched[OF a this] show ?thesis by simp
  qed
  have subs_2: "orderObjs s' (?subs ! i) = orderObjs sa (?subs ! i)" if "i < length ?subs" for i
  proof -
    from that have "?subs ! i \<in> set ?subs" by simp
    then have "?subs ! i \<notin> set ?reds" using pendingOf_disjoint by blast
    from redemptionLoop_untouched[OF b this] s' show ?thesis by simp
  qed
  have st_s: "status (orderObjs s' (?subs ! i)) =
      (if subscriptionConfirmed L i newNAV (orderObjs s (?subs ! i)) = None then Failed else Executed)"
    if i: "i < length ?subs" for i
    using subscriptionLoop_status[OF a ds i] subs_2[OF i] by simp
  have st_r: "status (orderObjs s' (?reds ! j)) =
      (if redemptionConfirmed L (length ?subs + j) newNAV (orderObjs s (?reds ! j)) = None
       then Failed else Executed)"
    if j: "j < length ?reds" for j
    using redemptionLoop_status[OF b dr j] reds_a[OF j] na s' by simp
  from subscriptionLoop_totals[OF a ds] have ta:
    "totalAUM sa = totalAUM s + (\<Sum>i<length ?subs. subscribedAt L newNAV i (orderObjs s (?subs ! i)))"
    "totalSharesOutstanding sa = totalSharesOutstanding s +
       (\<Sum>i<length ?subs. subscribedAt L newNAV i (orderObjs s (?subs ! i)) / newNAV)"
    by simp_all
  from redemptionLoop_totals[OF b dr] na reds_a have tb:
    "totalAUM s2 = totalAUM sa -
       (\<Sum>j<length ?reds. redeemedAt L newNAV (length ?subs + j) (orderObjs s (?reds ! j)) * newNAV)"
    "totalSharesOutstanding s2 = totalSharesOutstanding sa -
       (\<Sum>j<length ?reds. redeemedAt L newNAV (length ?subs + j) (orderObjs s (?reds ! j)))"
    by simp_all
  from st_s st_r ta tb s' show ?thesis by simp
qed

text \<open>
  Claim C4. Once the NAV is published the strike returns, whatever the settlements do. The
  order settled by the \<open>k\<close>-th call ends failed exactly when the ledger does not confirm that
  call (a call before the confirmation throws) and executed otherwise, whatever happened to
  the orders before it: a failure does not stop the strike, and the later orders are
  attempted and can settle. A failed order adds nothing
  to \<open>totalAUM\<close> and \<open>totalSharesOutstanding\<close>: the totals move by the confirmed orders only.
\<close>

theorem executeStrike_isolates_failures:
  assumes pub: "publishNAV L newNAV (navClock L) (totalAUM s) = Some sig"
    and d: "distinct (queue s)"
  shows "\<exists>rep s'. executeStrike L newNAV s = (Inr rep, s') \<and>
         (\<forall>i<length (pendingOf Subscribe s).
            status (orderObjs s' (pendingOf Subscribe s ! i)) =
              (if subscriptionConfirmed L i newNAV (orderObjs s (pendingOf Subscribe s ! i)) = None
               then Failed else Executed)) \<and>
         (\<forall>j<length (pendingOf Redeem s).
            status (orderObjs s' (pendingOf Redeem s ! j)) =
              (if redemptionConfirmed L (length (pendingOf Subscribe s) + j) newNAV
                    (orderObjs s (pendingOf Redeem s ! j)) = None
               then Failed else Executed)) \<and>
         totalAUM s' = totalAUM s +
            (\<Sum>i<length (pendingOf Subscribe s).
                subscribedAt L newNAV i (orderObjs s (pendingOf Subscribe s ! i))) -
            (\<Sum>j<length (pendingOf Redeem s).
                redeemedAt L newNAV (length (pendingOf Subscribe s) + j)
                  (orderObjs s (pendingOf Redeem s ! j)) * newNAV) \<and>
         totalSharesOutstanding s' = totalSharesOutstanding s +
            (\<Sum>i<length (pendingOf Subscribe s).
                subscribedAt L newNAV i (orderObjs s (pendingOf Subscribe s ! i)) / newNAV) -
            (\<Sum>j<length (pendingOf Redeem s).
                redeemedAt L newNAV (length (pendingOf Subscribe s) + j)
                  (orderObjs s (pendingOf Redeem s ! j)))"
proof -
  from executeStrike_publish_success[OF pub] obtain rep s' where
    run: "executeStrike L newNAV s = (Inr rep, s')" by blast
  from run executeStrike_effect[OF run d] show ?thesis by blast
qed

theorem executeStrike_isolates_failures_witness:
  "publishNAV flakyLedger 1 (navClock flakyLedger) (totalAUM demoQueue) = Some ''nav'' \<and>
   distinct (queue demoQueue) \<and>
   pendingOf Subscribe demoQueue = [0, 1] \<and> pendingOf Redeem demoQueue = [2] \<and>
   subscriptionConfirmed flakyLedger 1 1 (orderObjs demoQueue 1) = None \<and>
   \<not> isl (fst (executeStrike flakyLedger 1 demoQueue)) \<and>
   status (orderObjs (snd (executeStrike flakyLedger 1 demoQueue)) 0) = Executed \<and>
   status (orderObjs (snd (executeStrike flakyLedger 1 demoQueue)) 1) = Failed \<and>
   status (orderObjs (snd (executeStrike flakyLedger 1 demoQueue)) 2) = Executed \<and>
   totalAUM demoQueue = 0 \<and> totalAUM (snd (executeStrike flakyLedger 1 demoQueue)) = 210 \<and>
   totalSharesOutstanding (snd (executeStrike flakyLedger 1 demoQueue)) = 210"
proof -
  have pub: "publishNAV flakyLedger 1 (navClock flakyLedger) (totalAUM demoQueue) = Some ''nav''"
    by code_simp
  have d: "distinct (queue demoQueue)" by code_simp
  have subs: "pendingOf Subscribe demoQueue = [0, 1]" by code_simp
  have reds: "pendingOf Redeem demoQueue = [2]" by code_simp
  have c0: "subscriptionConfirmed flakyLedger 0 1 (orderObjs demoQueue 0) \<noteq> None" by code_simp
  have c1: "subscriptionConfirmed flakyLedger 1 1 (orderObjs demoQueue 1) = None" by code_simp
  have c2: "redemptionConfirmed flakyLedger (Suc (Suc 0)) 1 (orderObjs demoQueue 2) \<noteq> None"
    by code_simp
  have v0: "subscribedAt flakyLedger 1 0 (orderObjs demoQueue 0) = 250" by code_simp
  have v1: "subscribedAt flakyLedger 1 (Suc 0) (orderObjs demoQueue (Suc 0)) = 0" by code_simp
  have v2: "redeemedAt flakyLedger 1 (Suc (Suc 0)) (orderObjs demoQueue 2) = 40" by code_simp
  have t0: "totalAUM demoQueue = 0" "totalSharesOutstanding demoQueue = 0" by code_simp+
  from executeStrike_isolates_failures[OF pub d, unfolded subs reds] obtain rep s' where
    run: "executeStrike flakyLedger 1 demoQueue = (Inr rep, s')" and
    st: "\<forall>i<length [0, 1 :: nat]. status (orderObjs s' ([0, 1] ! i)) =
      (if subscriptionConfirmed flakyLedger i 1 (orderObjs demoQueue ([0, 1] ! i)) = None
       then Failed else Executed)" and
    sr: "\<forall>j<length [2 :: nat]. status (orderObjs s' ([2] ! j)) =
      (if redemptionConfirmed flakyLedger (length [0, 1 :: nat] + j) 1
            (orderObjs demoQueue ([2] ! j)) = None
       then Failed else Executed)" and
    ta: "totalAUM s' = totalAUM demoQueue +
            (\<Sum>i<length [0, 1 :: nat].
                subscribedAt flakyLedger 1 i (orderObjs demoQueue ([0, 1] ! i))) -
            (\<Sum>j<length [2 :: nat].
                redeemedAt flakyLedger 1 (length [0, 1 :: nat] + j)
                  (orderObjs demoQueue ([2] ! j)) * 1)" and
    ts: "totalSharesOutstanding s' = totalSharesOutstanding demoQueue +
            (\<Sum>i<length [0, 1 :: nat].
                subscribedAt flakyLedger 1 i (orderObjs demoQueue ([0, 1] ! i)) / 1) -
            (\<Sum>j<length [2 :: nat].
                redeemedAt flakyLedger 1 (length [0, 1 :: nat] + j)
                  (orderObjs demoQueue ([2] ! j)))"
    by blast
  from run have s': "snd (executeStrike flakyLedger 1 demoQueue) = s'"
    and ok: "\<not> isl (fst (executeStrike flakyLedger 1 demoQueue))" by simp_all
  from st have sti: "\<And>i. i < 2 \<Longrightarrow> status (orderObjs s' ([0, 1] ! i)) =
      (if subscriptionConfirmed flakyLedger i 1 (orderObjs demoQueue ([0, 1] ! i)) = None
       then Failed else Executed)"
    by simp
  from sti[of 0] sti[of 1] c0 c1 have s01:
    "status (orderObjs s' 0) = Executed" "status (orderObjs s' 1) = Failed"
    by simp_all
  from sr c2 have s2: "status (orderObjs s' 2) = Executed" by simp
  from ta ts v0 v1 v2 t0 have tot: "totalAUM s' = 210" "totalSharesOutstanding s' = 210"
    by (simp_all add: lessThan_Suc eval_nat_numeral)
  from pub d subs reds c1 ok s01 s2 t0 tot s' show ?thesis by simp
qed




section \<open>NAV fixing and order intake without validation\<close>

text \<open>
  Claim C5, evaluated where it fails. When the publication of the NAV throws, the strike is
  abandoned with no order processed: the totals, the queue and the order statuses are
  untouched. But \<open>updateNAV\<close> has already assigned \<open>currentNAV\<close> and \<open>lastStrikeTime\<close>
  before it sends the transaction, and nothing restores them: here the NAV goes from 1 to
  1.02 and the strike time from 08:00 to 09:30 in a call that failed.
\<close>

theorem executeStrike_publish_failure_keeps_new_nav:
  "fst (executeStrike downLedger (51 / 50) demoQueue) = Inl LedgerError \<and>
   currentNAV demoQueue = 1 \<and>
   currentNAV (snd (executeStrike downLedger (51 / 50) demoQueue)) = 51 / 50 \<and>
   lastStrikeTime demoQueue = at0800 \<and>
   lastStrikeTime (snd (executeStrike downLedger (51 / 50) demoQueue)) = at0930 \<and>
   totalAUM (snd (executeStrike downLedger (51 / 50) demoQueue)) = totalAUM demoQueue \<and>
   totalSharesOutstanding (snd (executeStrike downLedger (51 / 50) demoQueue)) =
     totalSharesOutstanding demoQueue \<and>
   queue (snd (executeStrike downLedger (51 / 50) demoQueue)) = [0, 1, 2] \<and>
   map (\<lambda>r. status (orderObjs (snd (executeStrike downLedger (51 / 50) demoQueue)) r)) [0, 1, 2] =
     [Pending, Pending, Pending]"
  by code_simp




lemma getNextStrikeTime_nonempty:
  "strikeSchedule s \<noteq> [] \<Longrightarrow> \<exists>t. getNextStrikeTime now s = Inr t"
  by (cases "strikeSchedule s")
     (simp_all add: getNextStrikeTime_def split: option.split)

text \<open>
  Claim C7, as amended. \<open>queueOrder\<close> does not look at the amount: for every amount,
  positive or not, a call on an engine with a non-empty schedule succeeds, and the new
  pending order with that amount is appended to the queue; nothing else changes.
\<close>

theorem queueOrder_accepts_any_amount:
  assumes "strikeSchedule s \<noteq> []"
  shows "\<exists>s'. queueOrder now who ty amt s = (Inr (nextOrder s), s') \<and>
           queue s' = queue s @ [nextOrder s] \<and>
           status (orderObjs s' (nextOrder s)) = Pending \<and>
           amount (orderObjs s' (nextOrder s)) = amt \<and>
           orderType (orderObjs s' (nextOrder s)) = ty \<and>
           investor (orderObjs s' (nextOrder s)) = who \<and>
           orderId (orderObjs s' (nextOrder s)) = ''ORD-'' @ natToString (orderCounter s + 1) \<and>
           (\<forall>r. r \<noteq> nextOrder s \<longrightarrow> orderObjs s' r = orderObjs s r) \<and>
           getFundState s' = getFundState s"
proof -
  from assms obtain t where "getNextStrikeTime now (s\<lparr>orderCounter := orderCounter s + 1\<rparr>) = Inr t"
    using getNextStrikeTime_nonempty[of "s\<lparr>orderCounter := orderCounter s + 1\<rparr>" now] by auto
  then show ?thesis
    by (simp add: queueOrder_def Let_def queue_def getFundState_def)
qed

theorem queueOrder_accepts_any_amount_witness:
  "strikeSchedule demoFund \<noteq> [] \<and> nextOrder demoFund = 0 \<and>
   fst (queueOrder at0800 ''A'' Redeem 0 demoFund) = Inr 0 \<and>
   (\<exists>s'. queueOrder at0800 ''A'' Redeem 0 demoFund = (Inr (nextOrder demoFund), s') \<and>
           queue s' = queue demoFund @ [nextOrder demoFund] \<and>
           status (orderObjs s' (nextOrder demoFund)) = Pending \<and>
           amount (orderObjs s' (nextOrder demoFund)) = 0)"
proof -
  have ne: "strikeSchedule demoFund \<noteq> []" by code_simp
  have n: "nextOrder demoFund = 0" by code_simp
  from queueOrder_accepts_any_amount[OF ne, of at0800 "''A''" Redeem 0] ne n show ?thesis
    by auto
qed

text \<open>
  Claim C7 as stated fails: an order for the amount -5 is accepted and queued.
\<close>

theorem queueOrder_negative_amount_counterexample:
  "fst (queueOrder at0800 ''A'' Subscribe (- 5) demoFund) = Inr 0 \<and>
   queue demoFund = [] \<and>
   queue (snd (queueOrder at0800 ''A'' Subscribe (- 5) demoFund)) = [0] \<and>
   amount (orderObjs (snd (queueOrder at0800 ''A'' Subscribe (- 5) demoFund)) 0) = - 5 \<and>
   status (orderObjs (snd (queueOrder at0800 ''A'' Subscribe (- 5) demoFund)) 0) = Pending"
  by code_simp

section \<open>Rounding of the leg amounts\<close>






section \<open>Reading the queue\<close>

text \<open>
  Claim C10. \<open>getPendingOrders\<close> returns a newly allocated array with the elements of the
  queue and leaves the engine as it was: the fund state, the schedule, the counter, the
  order objects and the queue are unchanged. The array is not the engine's own, so whatever
  the caller then writes into it (adding or removing elements), the queue and the result of
  a later \<open>getPendingOrders\<close> are the same.
\<close>

theorem getPendingOrders_fresh_copy:
  assumes alloc: "pendingOrders s < nextArray s"
  shows "\<exists>a s1. getPendingOrders s = (a, s1) \<and>
           arrayObjs s1 a = queue s \<and> a \<noteq> pendingOrders s1 \<and>
           queue s1 = queue s \<and> orderObjs s1 = orderObjs s \<and>
           getFundState s1 = getFundState s \<and> strikeSchedule s1 = strikeSchedule s \<and>
           orderCounter s1 = orderCounter s \<and>
           (\<forall>xs. queue (callerWritesArray a xs s1) = queue s \<and>
                 (\<exists>b s2. getPendingOrders (callerWritesArray a xs s1) = (b, s2) \<and>
                         arrayObjs s2 b = queue s \<and> queue s2 = queue s))"
  using alloc
  by (auto simp: getPendingOrders_def callerWritesArray_def queue_def getFundState_def Let_def)

theorem getPendingOrders_fresh_copy_witness:
  "pendingOrders demoQueue < nextArray demoQueue \<and>
   arrayObjs (snd (getPendingOrders demoQueue)) (fst (getPendingOrders demoQueue)) = [0, 1, 2] \<and>
   queue (callerWritesArray (fst (getPendingOrders demoQueue)) [] (snd (getPendingOrders demoQueue))) = [0, 1, 2] \<and>
   (\<exists>a s1. getPendingOrders demoQueue = (a, s1) \<and>
           arrayObjs s1 a = queue demoQueue \<and> a \<noteq> pendingOrders s1 \<and>
           queue (callerWritesArray a [] s1) = queue demoQueue)"
proof -
  have al: "pendingOrders demoQueue < nextArray demoQueue" by code_simp
  have v: "arrayObjs (snd (getPendingOrders demoQueue)) (fst (getPendingOrders demoQueue)) = [0, 1, 2]"
    by code_simp
  have w: "queue (callerWritesArray (fst (getPendingOrders demoQueue)) [] (snd (getPendingOrders demoQueue))) = [0, 1, 2]"
    by code_simp
  from getPendingOrders_fresh_copy[OF al] obtain a s1 where
    g: "getPendingOrders demoQueue = (a, s1)" "arrayObjs s1 a = queue demoQueue"
       "a \<noteq> pendingOrders s1" "\<forall>xs. queue (callerWritesArray a xs s1) = queue demoQueue"
    by blast
  then have "\<exists>a s1. getPendingOrders demoQueue = (a, s1) \<and>
           arrayObjs s1 a = queue demoQueue \<and> a \<noteq> pendingOrders s1 \<and>
           queue (callerWritesArray a [] s1) = queue demoQueue" by blast
  with al v w show ?thesis by blast
qed

section \<open>The shape of the store is maintained\<close>

text \<open>The hypotheses on the queue used above hold in every state that the engine's methods
  reach from a new engine.\<close>

lemma wfState_newEngine: "wfState (newEngine now)"
  by (simp add: wfState_def newEngine_def queue_def)

lemma wfState_createFundToken:
  "wfState s \<Longrightarrow> wfState (snd (createFundToken now created initialNAV schedule s))"
  by (simp add: wfState_def createFundToken_def queue_def split: option.splits)

lemma wfState_updateNAV: "wfState s \<Longrightarrow> wfState (snd (updateNAV now publish newNAV s))"
  by (simp add: wfState_def updateNAV_def queue_def Let_def split: option.splits)

lemma wfState_processSubscription:
  "wfState s \<Longrightarrow> wfState (snd (processSubscription prepared send now who amt s))"
  by (simp add: wfState_def processSubscription_def queue_def Let_def split: option.splits)

lemma wfState_processRedemption:
  "wfState s \<Longrightarrow> wfState (snd (processRedemption prepared send now who amt s))"
  by (simp add: wfState_def processRedemption_def queue_def Let_def split: option.splits)

lemma wfState_queueOrder: "wfState s \<Longrightarrow> wfState (snd (queueOrder now who ty amt s))"
  by (auto simp: wfState_def queueOrder_def queue_def Let_def list_all_iff split: sum.splits)

lemma wfState_getPendingOrders: "wfState s \<Longrightarrow> wfState (snd (getPendingOrders s))"
  by (auto simp: wfState_def getPendingOrders_def queue_def Let_def)

lemma wfState_executeStrike: "wfState s \<Longrightarrow> wfState (snd (executeStrike L newNAV s))"
proof (cases "publishNAV L newNAV (navClock L) (totalAUM s)")
  case None
  assume "wfState s"
  with executeStrike_publish_failure[OF None] show ?thesis
    by (simp add: wfState_def queue_def)
next
  case (Some sig)
  assume wf: "wfState s"
  from executeStrike_publish_success[OF Some] obtain rep s' where
    run: "executeStrike L newNAV s = (Inr rep, s')" by blast
  from run obtain sa ta ra s2 t rcs where
    a: "subscriptionLoop L 0 (pendingOf Subscribe s)
          (s\<lparr>currentNAV := newNAV, lastStrikeTime := navClock L\<rparr>, emptyTally, []) = (sa, ta, ra)" and
    b: "redemptionLoop L (length (pendingOf Subscribe s)) (pendingOf Redeem s) (sa, ta, ra) = (s2, t, rcs)" and
    s': "s' = s2\<lparr>arrayObjs := (arrayObjs s2)(nextArray s2 :=
                   filter (\<lambda>r. status (orderObjs s2 r) = Pending) (arrayObjs s2 (pendingOrders s2))),
             nextArray := nextArray s2 + 1, pendingOrders := nextArray s2\<rparr>"
    by (rule executeStrike_InrE)
  from subscriptionLoop_frame[OF a] redemptionLoop_frame[OF b]
  have "arrayObjs s2 (pendingOrders s2) = queue s" "nextOrder s2 = nextOrder s"
    by (simp_all add: sameEngine_def queue_def)
  with wf s' run show ?thesis
    by (auto simp: wfState_def queue_def list_all_iff)
qed

end
